theory Spec2Isabelle
  imports Complex_Main
begin

section \<open>SpectrumMark: text measurement, segmentation and splitting\<close>

text \<open>
  A shallow embedding of \<^verbatim>\<open>src/SpectrumMark.py\<close>.

  \<^item> A Python \<^verbatim>\<open>str\<close> is a sequence of Unicode code points, so a character is
    modelled by its code point (a \<open>nat\<close>) and a string by a list of code points.
    An Isabelle \<open>char\<close> is a byte and cannot hold the characters this program
    is about.
  \<^item> A Python \<^verbatim>\<open>float\<close> is modelled by a \<open>real\<close>: sums and comparisons are
    exact, rounding is outside the model.
  \<^item> A font object of the PDF library is modelled by its only method used here,
    \<^verbatim>\<open>text_length(text, fontsize=...)\<close>, a function from a text and a font size
    to a width. The fonts are parameters of every definition, as they are
    arguments of the source functions.
\<close>

type_synonym uchar = nat
type_synonym ustring = "uchar list"
type_synonym font = "ustring \<Rightarrow> real \<Rightarrow> real"

subsection \<open>\<^verbatim>\<open>is_chinese\<close>\<close>

text \<open>
  The source compares the one-character string \<open>char\<close> with the characters
  U+0800 and U+FFFF: a comparison of code points.
\<close>

definition is_chinese :: "uchar \<Rightarrow> bool" where
  "is_chinese char \<longleftrightarrow> 0x0800 \<le> char \<and> char \<le> 0xFFFF"

subsection \<open>\<^verbatim>\<open>segment_text\<close>\<close>

text \<open>
  The loop state is \<open>(segments, current_seg, current_is_ch)\<close>; one iteration of
  \<^verbatim>\<open>for ch in text_line[1:]\<close> is \<open>segment_step\<close>, and the last segment is
  appended after the loop. Nothing happens for the empty line.
\<close>

type_synonym segment = "ustring \<times> bool"

definition segment_step ::
  "uchar \<Rightarrow> segment list \<times> ustring \<times> bool \<Rightarrow> segment list \<times> ustring \<times> bool" where
  "segment_step ch st =
     (case st of (segments, current_seg, current_is_ch) \<Rightarrow>
        if is_chinese ch = current_is_ch
        then (segments, current_seg @ [ch], current_is_ch)
        else (segments @ [(current_seg, current_is_ch)], [ch], is_chinese ch))"

definition segment_text :: "ustring \<Rightarrow> segment list" where
  "segment_text text_line =
     (case text_line of
        [] \<Rightarrow> []
      | c0 # rest \<Rightarrow>
          (case fold segment_step rest ([], [c0], is_chinese c0) of
             (segments, current_seg, current_is_ch) \<Rightarrow>
               segments @ [(current_seg, current_is_ch)]))"

subsection \<open>\<^verbatim>\<open>compute_line_width\<close>\<close>

text \<open>
  \<open>total_width\<close> is threaded through both loops: a Chinese segment adds one
  measurement of the whole segment, any other segment adds
  \<open>letter_width + char_adjust\<close> letter by letter.
\<close>

definition letter_step :: "font \<Rightarrow> real \<Rightarrow> real \<Rightarrow> uchar \<Rightarrow> real \<Rightarrow> real" where
  "letter_step latin_font font_size char_adjust letter total_width =
     total_width + (latin_font [letter] font_size + char_adjust)"

definition width_step :: "font \<Rightarrow> font \<Rightarrow> real \<Rightarrow> real \<Rightarrow> segment \<Rightarrow> real \<Rightarrow> real" where
  "width_step chinese_font latin_font font_size char_adjust sg total_width =
     (case sg of (seg, seg_is_ch) \<Rightarrow>
        if seg_is_ch then total_width + chinese_font seg font_size
        else fold (letter_step latin_font font_size char_adjust) seg total_width)"

definition compute_line_width :: "ustring \<Rightarrow> font \<Rightarrow> font \<Rightarrow> real \<Rightarrow> real \<Rightarrow> real" where
  "compute_line_width text_line chinese_font latin_font font_size char_adjust =
     fold (width_step chinese_font latin_font font_size char_adjust)
       (segment_text text_line) 0"

subsection \<open>\<^verbatim>\<open>split_text_line\<close>\<close>

text \<open>
  The width one character adds in the scan: measured alone, against the Chinese
  font for a Chinese character, against the Latin font plus \<open>char_adjust\<close>
  otherwise.
\<close>

definition ch_width :: "font \<Rightarrow> font \<Rightarrow> real \<Rightarrow> real \<Rightarrow> uchar \<Rightarrow> real" where
  "ch_width chinese_font latin_font font_size char_adjust ch =
     (if is_chinese ch then chinese_font [ch] font_size
      else latin_font [ch] font_size + char_adjust)"

text \<open>
  The \<^verbatim>\<open>for i, ch in enumerate(text_line)\<close> loop with its \<^verbatim>\<open>break\<close>: the
  arguments are the characters still to visit, the index \<open>i\<close> of the next one,
  \<open>cum_width\<close> and \<open>split_index\<close>; the result is \<open>split_index\<close> when the loop
  ends.
\<close>

fun split_scan ::
  "font \<Rightarrow> font \<Rightarrow> real \<Rightarrow> real \<Rightarrow> real \<Rightarrow> ustring \<Rightarrow> nat \<Rightarrow> real \<Rightarrow> nat \<Rightarrow> nat" where
  "split_scan chinese_font latin_font font_size char_adjust allowed_width
       [] i cum_width split_index = split_index"
| "split_scan chinese_font latin_font font_size char_adjust allowed_width
       (ch # rest) i cum_width split_index =
     (if cum_width + ch_width chinese_font latin_font font_size char_adjust ch
           \<le> allowed_width
      then split_scan chinese_font latin_font font_size char_adjust allowed_width
             rest (i + 1)
             (cum_width + ch_width chinese_font latin_font font_size char_adjust ch)
             (i + 1)
      else split_index)"

text \<open>
  Python's slices \<^verbatim>\<open>s[:k]\<close> and \<^verbatim>\<open>s[k:]\<close> with \<open>k \<ge> 0\<close> never raise: they are
  \<open>take k s\<close> and \<open>drop k s\<close>.
\<close>

definition split_text_line ::
  "ustring \<Rightarrow> real \<Rightarrow> font \<Rightarrow> font \<Rightarrow> real \<Rightarrow> real \<Rightarrow> ustring \<times> ustring" where
  "split_text_line text_line allowed_width chinese_font latin_font font_size char_adjust =
     (let k = split_scan chinese_font latin_font font_size char_adjust allowed_width
                text_line 0 0 0;
          split_index = (if k = 0 then 1 else k)
      in (take split_index text_line, drop split_index text_line))"

subsection \<open>Strings of the configuration\<close>

text \<open>
  \<^verbatim>\<open>str.strip()\<close> removes the leading and trailing characters that
  \<^verbatim>\<open>str.isspace()\<close> accepts; \<open>is_space\<close> lists their code points.
\<close>

definition is_space :: "uchar \<Rightarrow> bool" where
  "is_space c \<longleftrightarrow>
     (9 \<le> c \<and> c \<le> 13) \<or> (28 \<le> c \<and> c \<le> 32) \<or> c = 0x85 \<or> c = 0xA0 \<or> c = 0x1680 \<or>
     (0x2000 \<le> c \<and> c \<le> 0x200A) \<or> c = 0x2028 \<or> c = 0x2029 \<or> c = 0x202F \<or>
     c = 0x205F \<or> c = 0x3000"

definition strip :: "ustring \<Rightarrow> ustring" where
  "strip s = rev (dropWhile is_space (rev (dropWhile is_space s)))"

text \<open>
  \<^verbatim>\<open>str.lower()\<close> on the letters A to Z. The result is only compared with
  \<^verbatim>\<open>"left"\<close>, \<^verbatim>\<open>"center"\<close> and \<^verbatim>\<open>"right"\<close>, and no character outside A to Z is
  lowered by Python to a single letter of these words, so the comparison decides
  as the source does.
\<close>

definition lower :: "ustring \<Rightarrow> ustring" where
  "lower s = map (\<lambda>c. if 65 \<le> c \<and> c \<le> 90 then c + 32 else c) s"

text \<open>\<^verbatim>\<open>str.split(sep)\<close> for a one-character separator: never an empty list.\<close>

fun split_on :: "uchar \<Rightarrow> ustring \<Rightarrow> ustring list" where
  "split_on sep [] = [[]]"
| "split_on sep (c # cs) =
     (if c = sep then [] # split_on sep cs
      else (case split_on sep cs of
              p # ps \<Rightarrow> (c # p) # ps
            | [] \<Rightarrow> [[c]]))"

text \<open>The literals \<^verbatim>\<open>"left"\<close>, \<^verbatim>\<open>"center"\<close>, \<^verbatim>\<open>"right"\<close> and the comma.\<close>

definition str_left :: ustring where
  "str_left = [108, 101, 102, 116]"

definition str_center :: ustring where
  "str_center = [99, 101, 110, 116, 101, 114]"

definition str_right :: ustring where
  "str_right = [114, 105, 103, 104, 116]"

definition comma :: uchar where
  "comma = 44"

text \<open>
  After the check of lines 97 to 100 \<open>text_align\<close> is one of three strings, and
  the later \<^verbatim>\<open>if/elif/elif\<close> chains compare it with them in this order: it is
  modelled by an enumeration. \<open>None\<close> is the invalid value, which the caller
  replaces by \<open>AlignLeft\<close> with a warning.
\<close>

datatype align = AlignLeft | AlignCenter | AlignRight

definition parse_align :: "ustring \<Rightarrow> align option" where
  "parse_align text_align =
     (let a = strip (lower text_align)
      in if a = str_left then Some AlignLeft
         else if a = str_center then Some AlignCenter
         else if a = str_right then Some AlignRight
         else None)"

subsection \<open>The colour\<close>

text \<open>
  Lines 102 to 113. \<open>to_float\<close> is Python's \<^verbatim>\<open>float\<close> on a string, \<open>None\<close> where
  it raises \<^verbatim>\<open>ValueError\<close>; it is a parameter, and its values are real numbers
  (\<^verbatim>\<open>nan\<close> and \<^verbatim>\<open>inf\<close> are outside the model). \<open>parse_color\<close> is the body of the
  \<^verbatim>\<open>try\<close>, \<open>None\<close> where it raises; \<open>resolve_color\<close> adds the handler, which logs
  and falls back to black.
\<close>

type_synonym color = "real \<times> real \<times> real"

definition parse_color :: "(ustring \<Rightarrow> real option) \<Rightarrow> ustring \<Rightarrow> color option" where
  "parse_color to_float color_str =
     (case those (map (\<lambda>c. to_float (strip c)) (split_on comma color_str)) of
        None \<Rightarrow> None
      | Some color_values \<Rightarrow>
          (case color_values of
             [r, g, b] \<Rightarrow>
               if list_ex (\<lambda>c. c > 1) color_values
               then Some (r / 255, g / 255, b / 255)
               else Some (r, g, b)
           | _ \<Rightarrow> None))"

subsection \<open>The trace of \<^verbatim>\<open>perform_insertion\<close>\<close>

text \<open>
  \<^verbatim>\<open>perform_insertion\<close> returns nothing: what it does is the sequence of its calls
  to \<^verbatim>\<open>log_func\<close> and to the document (\<^verbatim>\<open>page.insert_text\<close>, \<^verbatim>\<open>doc.set_toc\<close>,
  \<^verbatim>\<open>doc.save\<close>, \<^verbatim>\<open>doc.close\<close>). The model returns this sequence. A log message is
  a constructor holding the values the message is formatted from; file paths are
  left out of it.
\<close>

datatype fontname = ChinaS | TimesRoman

datatype log_msg =
    NotNumeric
  | AlignInvalid
  | ColorInvalid
  | TextFileMissing
  | TextFileUnreadable
  | PdfOpenFailed
  | ChineseFontFailed
  | PageLine nat ustring
  | WidthReport real real align
  | TwoRows ustring real real ustring real real
  | OneRow real
  | ChineseSegment ustring real
  | LatinLetter uchar real
  | Bookmark nat ustring nat
  | SavedTo
  | SaveFailed

datatype event =
    Log log_msg
  | InsertText nat real real ustring fontname real color
  | SetToc "(nat \<times> ustring \<times> nat) list"
  | Save
  | Close

definition resolve_color :: "(ustring \<Rightarrow> real option) \<Rightarrow> ustring \<Rightarrow> event list \<times> color" where
  "resolve_color to_float color_str =
     (case parse_color to_float color_str of
        Some color_black \<Rightarrow> ([], color_black)
      | None \<Rightarrow> ([Log ColorInvalid], (0, 0, 0)))"

text \<open>
  The local variables of \<^verbatim>\<open>perform_insertion\<close> that the page loop reads.
\<close>

record locals =
  insert_x :: real
  insert_y :: real
  font_size :: real
  color_black :: color
  text_align :: align
  chinese_font_obj :: font
  latin_font_obj :: font
  char_adjust :: real

text \<open>
  The loop that draws one row is written three times in the source (lines 184
  to 209, 212 to 237 and 248 to 274), the same but for the row's text, start
  and height, and for the two log calls of the third copy (\<open>verbose\<close>). Its
  state is the trace so far and \<open>current_x\<close>.
\<close>

definition draw_letter ::
  "locals \<Rightarrow> bool \<Rightarrow> nat \<Rightarrow> real \<Rightarrow> uchar \<Rightarrow> event list \<times> real \<Rightarrow> event list \<times> real" where
  "draw_letter L verbose page y letter st =
     (case st of (evs, current_x) \<Rightarrow>
        (evs @ [InsertText page current_x y [letter] TimesRoman (font_size L) (color_black L)]
             @ (if verbose
                then [Log (LatinLetter letter (latin_font_obj L [letter] (font_size L)))]
                else []),
         current_x + (latin_font_obj L [letter] (font_size L) + char_adjust L)))"

definition draw_segment ::
  "locals \<Rightarrow> bool \<Rightarrow> nat \<Rightarrow> real \<Rightarrow> segment \<Rightarrow> event list \<times> real \<Rightarrow> event list \<times> real" where
  "draw_segment L verbose page y sg st =
     (case sg of (seg, seg_is_ch) \<Rightarrow>
        if seg_is_ch
        then (case st of (evs, current_x) \<Rightarrow>
                (evs @ [InsertText page current_x y seg ChinaS (font_size L) (color_black L)]
                     @ (if verbose
                        then [Log (ChineseSegment seg (chinese_font_obj L seg (font_size L)))]
                        else []),
                 current_x + chinese_font_obj L seg (font_size L)))
        else fold (draw_letter L verbose page y) seg st)"

definition draw_row ::
  "locals \<Rightarrow> bool \<Rightarrow> nat \<Rightarrow> real \<Rightarrow> real \<Rightarrow> ustring \<Rightarrow> event list" where
  "draw_row L verbose page x y row_text =
     fst (fold (draw_segment L verbose page y) (segment_text row_text) ([], x))"

definition start_x :: "align \<Rightarrow> real \<Rightarrow> real \<Rightarrow> real \<Rightarrow> real" where
  "start_x a ins_x page_width row_width =
     (case a of
        AlignLeft \<Rightarrow> ins_x
      | AlignCenter \<Rightarrow> (page_width - row_width) / 2
      | AlignRight \<Rightarrow> page_width - ins_x - row_width)"

text \<open>
  The body of \<^verbatim>\<open>for i in range(count)\<close>, lines 149 to 274, for page \<open>i\<close> of
  size \<open>(page_width, page_height)\<close>.
\<close>

definition process_page :: "locals \<Rightarrow> nat \<Rightarrow> ustring \<Rightarrow> real \<times> real \<Rightarrow> event list" where
  "process_page L i text_line page =
     (case page of (page_width, page_height) \<Rightarrow>
        let adjusted_y = page_height - insert_y L;
            line_width = compute_line_width text_line (chinese_font_obj L) (latin_font_obj L)
                           (font_size L) (char_adjust L);
            allowed_width = page_width - 2 * insert_x L
        in [Log (PageLine (i + 1) text_line),
            Log (WidthReport line_width allowed_width (text_align L))] @
           (if line_width > allowed_width
            then (case split_text_line text_line allowed_width (chinese_font_obj L)
                         (latin_font_obj L) (font_size L) (char_adjust L) of
                    (first_part, second_part) \<Rightarrow>
                      let first_line_width =
                            compute_line_width first_part (chinese_font_obj L)
                              (latin_font_obj L) (font_size L) (char_adjust L);
                          second_line_width =
                            compute_line_width second_part (chinese_font_obj L)
                              (latin_font_obj L) (font_size L) (char_adjust L);
                          x1 = start_x (text_align L) (insert_x L) page_width first_line_width;
                          x2 = start_x (text_align L) (insert_x L) page_width second_line_width;
                          first_line_y = adjusted_y - font_size L - 2;
                          second_line_y = adjusted_y
                      in [Log (TwoRows first_part x1 first_line_y second_part x2 second_line_y)] @
                         draw_row L False i x1 first_line_y first_part @
                         draw_row L False i x2 second_line_y second_part)
            else (let current_x = start_x (text_align L) (insert_x L) page_width line_width
                  in [Log (OneRow current_x)] @
                     draw_row L True i current_x adjusted_y text_line)))"

text \<open>
  One iteration of the page loop: the trace of the page, then
  \<^verbatim>\<open>toc.append([1, text_line, i + 1])\<close>. The index \<open>i\<close> is below \<open>count\<close>, so
  \<open>lines ! i\<close> and \<open>pages ! i\<close> are in range.
\<close>

type_synonym bookmark = "nat \<times> ustring \<times> nat"

definition page_step ::
  "locals \<Rightarrow> ustring list \<Rightarrow> (real \<times> real) list \<Rightarrow> nat \<Rightarrow>
   event list \<times> bookmark list \<Rightarrow> event list \<times> bookmark list" where
  "page_step L lines pages i st =
     (case st of (evs, toc) \<Rightarrow>
        (evs @ process_page L i (lines ! i) (pages ! i),
         toc @ [(1, lines ! i, i + 1)]))"

definition run_pages ::
  "locals \<Rightarrow> ustring list \<Rightarrow> (real \<times> real) list \<Rightarrow> event list \<times> bookmark list" where
  "run_pages L lines pages =
     (let num_lines = length lines;
          num_pages = length pages;
          count = min num_lines num_pages
      in fold (page_step L lines pages) [0..<count] ([], []))"

text \<open>
  What \<^verbatim>\<open>perform_insertion\<close> reads from outside: Python's \<^verbatim>\<open>float\<close>, the text
  file (missing, unreadable, or its raw lines), the document (\<open>None\<close> when it
  cannot be opened, else the width and height of each page), the Chinese font
  (\<open>None\<close> when it cannot be loaded), the Latin font and whether saving
  succeeds.
\<close>

datatype overlay = Missing | Unreadable | Content "ustring list"

record env =
  to_float :: "ustring \<Rightarrow> real option"
  overlay_txt :: overlay
  input_pdf :: "(real \<times> real) list option"
  china_s :: "font option"
  times_roman :: font
  save_ok :: bool

definition finish :: "env \<Rightarrow> bookmark list \<Rightarrow> event list" where
  "finish E toc =
     [SetToc toc] @ map (\<lambda>b. case b of (level, title, page) \<Rightarrow> Log (Bookmark level title page)) toc @
     (if save_ok E then [Save, Log SavedTo] else [Log SaveFailed]) @ [Close]"

definition perform_insertion ::
  "env \<Rightarrow> ustring \<Rightarrow> ustring \<Rightarrow> ustring \<Rightarrow> ustring \<Rightarrow> ustring \<Rightarrow> event list" where
  "perform_insertion E ins_x ins_y fsize color_str align_str =
     (case (to_float E ins_x, to_float E ins_y, to_float E fsize) of
        (Some x, Some y, Some fs) \<Rightarrow>
          (let (align_log, a) =
                 (case parse_align align_str of
                    Some a \<Rightarrow> ([], a)
                  | None \<Rightarrow> ([Log AlignInvalid], AlignLeft));
               (color_log, col) = resolve_color (to_float E) color_str
           in align_log @ color_log @
              (case overlay_txt E of
                 Missing \<Rightarrow> [Log TextFileMissing]
               | Unreadable \<Rightarrow> [Log TextFileUnreadable]
               | Content raw \<Rightarrow>
                   (let lines = filter (\<lambda>l. l \<noteq> []) (map strip raw)
                    in case input_pdf E of
                         None \<Rightarrow> [Log PdfOpenFailed]
                       | Some pages \<Rightarrow>
                           (case china_s E of
                              None \<Rightarrow> [Log ChineseFontFailed]
                            | Some cf \<Rightarrow>
                                (let L = \<lparr>insert_x = x, insert_y = y, font_size = fs,
                                          color_black = col, text_align = a,
                                          chinese_font_obj = cf,
                                          latin_font_obj = times_roman E,
                                          char_adjust = - (1 / 2)\<rparr>
                                 in case run_pages L lines pages of
                                      (evs, toc) \<Rightarrow> evs @ finish E toc)))))
      | _ \<Rightarrow> [Log NotNumeric])"

subsection \<open>The spec's measure, and notions the properties use\<close>

text \<open>
  The width of one run as the spec words it: a wide run is one measurement of
  the whole run against the wide font, a narrow run is the sum over its
  characters of the narrow font's width of the character plus the adjustment.
\<close>

definition spec_run_width :: "font \<Rightarrow> font \<Rightarrow> real \<Rightarrow> real \<Rightarrow> segment \<Rightarrow> real" where
  "spec_run_width metrics_wide metrics_narrow fontSize charAdjust run =
     (if snd run then metrics_wide (fst run) fontSize
      else (\<Sum>c\<leftarrow>fst run. metrics_narrow [c] fontSize + charAdjust))"

text \<open>The width the scan of \<open>split_text_line\<close> has accumulated after the characters \<open>s\<close>.\<close>

definition scan_width :: "font \<Rightarrow> font \<Rightarrow> real \<Rightarrow> real \<Rightarrow> ustring \<Rightarrow> real" where
  "scan_width chinese_font latin_font fsize adjust s =
     (\<Sum>ch\<leftarrow>s. ch_width chinese_font latin_font fsize adjust ch)"

text \<open>A run is well formed: not empty, and all its characters of the run's class.\<close>

definition seg_ok :: "segment \<Rightarrow> bool" where
  "seg_ok sg \<longleftrightarrow> fst sg \<noteq> [] \<and> list_all (\<lambda>c. is_chinese c = snd sg) (fst sg)"

text \<open>The invariant of the loop of \<open>segment_text\<close> after the characters \<open>consumed\<close>.\<close>

definition seg_state_ok :: "ustring \<Rightarrow> segment list \<times> ustring \<times> bool \<Rightarrow> bool" where
  "seg_state_ok consumed st \<longleftrightarrow>
     (case st of (segs, cur, cls) \<Rightarrow>
        seg_ok (cur, cls) \<and> list_all seg_ok segs \<and>
        distinct_adj (map snd segs @ [cls]) \<and>
        concat (map fst segs) @ cur = consumed)"


subsection \<open>Inputs of the examples\<close>

text \<open>
  The metrics provider of the spec's scenarios: every character has the same
  width \<open>w\<close>, whatever the font size.
\<close>

definition fixed_width_font :: "real \<Rightarrow> font" where
  "fixed_width_font w txt fsize = w * real (length txt)"

text \<open>
  A proportional font: the width of a text is the sum of the advance widths of
  its characters, given in thousandths of the font size. \<open>times_advance\<close>
  holds the advance widths of \<^verbatim>\<open>W\<close> (944) and \<^verbatim>\<open>i\<close> (278) in Times-Roman.
\<close>

definition times_advance :: "uchar \<Rightarrow> real" where
  "times_advance c = (if c = 87 then 944 else if c = 105 then 278 else 500)"

definition scaled_font :: "(uchar \<Rightarrow> real) \<Rightarrow> font" where
  "scaled_font advance txt fsize = fsize * (\<Sum>c\<leftarrow>txt. advance c) / 1000"

text \<open>The line \<^verbatim>\<open>Hello\<close> followed by U+4E16 and U+754C.\<close>

definition hello_world :: ustring where
  "hello_world = [72, 101, 108, 108, 111, 0x4E16, 0x754C]"

text \<open>
  Some values of Python's \<^verbatim>\<open>float\<close>: on \<^verbatim>\<open>"60"\<close>, \<^verbatim>\<open>"8"\<close>, \<^verbatim>\<open>"12"\<close>, \<^verbatim>\<open>"0"\<close>,
  \<^verbatim>\<open>"300"\<close>, \<^verbatim>\<open>"255"\<close> and \<^verbatim>\<open>"0.5"\<close>. On \<^verbatim>\<open>"abc"\<close>, which is not in the table,
  \<^verbatim>\<open>float\<close> raises \<^verbatim>\<open>ValueError\<close>. The examples apply the table to no other
  string.
\<close>

definition float_samples :: "ustring \<Rightarrow> real option" where
  "float_samples =
     [[54, 48] \<mapsto> 60, [56] \<mapsto> 8, [49, 50] \<mapsto> 12, [48] \<mapsto> 0,
      [51, 48, 48] \<mapsto> 300, [50, 53, 53] \<mapsto> 255, [48, 46, 53] \<mapsto> 1 / 2]"

text \<open>
  An environment for the examples: a text file of the three lines \<^verbatim>\<open>A\<close>, \<^verbatim>\<open>B\<close>
  and \<^verbatim>\<open>C\<close>, each ended by a newline, a document of five pages of 612 by 792
  points, fonts of fixed widths, and a save that succeeds.
\<close>

definition demo_env :: env where
  "demo_env =
     \<lparr>to_float = float_samples,
      overlay_txt = Content [[65, 10], [66, 10], [67, 10]],
      input_pdf = Some (replicate 5 (612, 792)),
      china_s = Some (fixed_width_font 10),
      times_roman = fixed_width_font 5,
      save_ok = True\<rparr>"

text \<open>
  The local variables of a run with the defaults of the form (anchor 60 and 8,
  font size 12, black, centred) and the fonts of fixed widths.
\<close>

definition demo_locals :: locals where
  "demo_locals =
     \<lparr>insert_x = 60, insert_y = 8, font_size = 12, color_black = (0, 0, 0),
      text_align = AlignCenter, chinese_font_obj = fixed_width_font 10,
      latin_font_obj = fixed_width_font 5, char_adjust = - (1 / 2)\<rparr>"

section \<open>Properties\<close>

subsection \<open>Segmentation\<close>

lemma segment_step_ok:
  "seg_state_ok l st \<Longrightarrow> seg_state_ok (l @ [ch]) (segment_step ch st)"
  by (cases st) (auto simp: seg_state_ok_def segment_step_def seg_ok_def distinct_adj_append_iff)

lemma fold_segment_step_ok:
  "seg_state_ok l st \<Longrightarrow> seg_state_ok (l @ rest) (fold segment_step rest st)"
proof (induction rest arbitrary: l st)
  case Nil
  then show ?case by simp
next
  case (Cons ch rest)
  from Cons.IH [OF segment_step_ok [OF Cons.prems, of ch]]
  show ?case by simp
qed

lemma segment_text_ok:
  "concat (map fst (segment_text l)) = l \<and> list_all seg_ok (segment_text l) \<and>
   distinct_adj (map snd (segment_text l))"
proof (cases l)
  case Nil
  then show ?thesis by (simp add: segment_text_def)
next
  case (Cons c0 rest)
  have "seg_state_ok [c0] ([], [c0], is_chinese c0)"
    by (simp add: seg_state_ok_def seg_ok_def)
  from fold_segment_step_ok [OF this, of rest]
  show ?thesis using Cons
    by (auto simp: segment_text_def seg_state_ok_def split: prod.splits)
qed

text \<open>
  Claim C2. For every line, the runs of \<open>segment_text\<close>, concatenated in order,
  give the line back; every run is non-empty and all its characters have the
  run's class; two adjacent runs differ in class; the empty line has no run.
\<close>

theorem segment_text_partition:
  "concat (map fst (segment_text text_line)) = text_line \<and>
   (\<forall>run\<in>set (segment_text text_line).
      fst run \<noteq> [] \<and> (\<forall>c\<in>set (fst run). is_chinese c = snd run)) \<and>
   distinct_adj (map snd (segment_text text_line)) \<and>
   segment_text [] = []"
  using segment_text_ok [of text_line]
  by (auto simp: list_all_iff seg_ok_def segment_text_def)

theorem segment_text_partition_witness:
  "segment_text hello_world = [([72, 101, 108, 108, 111], False), ([0x4E16, 0x754C], True)] \<and>
   concat (map fst (segment_text hello_world)) = hello_world \<and>
   distinct_adj (map snd (segment_text hello_world))"
  using segment_text_partition [of hello_world]
  by (simp add: hello_world_def segment_text_def segment_step_def is_chinese_def)

subsection \<open>Measuring\<close>

lemma fold_letter_step:
  "fold (letter_step lf fs adj) seg t = t + (\<Sum>c\<leftarrow>seg. lf [c] fs + adj)"
  by (induction seg arbitrary: t) (simp_all add: letter_step_def)

lemma width_step_run:
  "width_step cf lf fs adj sg t = t + spec_run_width cf lf fs adj sg"
  by (cases sg) (simp add: width_step_def spec_run_width_def fold_letter_step)

lemma fold_width_step:
  "fold (width_step cf lf fs adj) segs t = t + (\<Sum>sg\<leftarrow>segs. spec_run_width cf lf fs adj sg)"
  by (induction segs arbitrary: t) (simp_all add: width_step_run)

lemma compute_line_width_runs:
  "compute_line_width l cf lf fs adj = (\<Sum>sg\<leftarrow>segment_text l. spec_run_width cf lf fs adj sg)"
  by (simp add: compute_line_width_def fold_width_step)

lemma segment_text_hello:
  "segment_text hello_world = [([72, 101, 108, 108, 111], False), ([0x4E16, 0x754C], True)]"
  by (simp add: hello_world_def segment_text_def segment_step_def is_chinese_def)

text \<open>
  Claim C3. For every line, \<open>compute_line_width\<close> is the sum over the runs of
  the line of one measurement of the whole run against the wide font for a wide
  run, and of the narrow font's width of each character plus the adjustment for
  a narrow run. For the line \<open>hello_world\<close>, with narrow characters 5 wide, wide
  characters 10 wide and an adjustment of -0.5, the width is 42.5 at every font
  size.
\<close>

theorem compute_line_width_spec:
  "compute_line_width text_line metrics_wide metrics_narrow fontSize charAdjust =
     (\<Sum>run\<leftarrow>segment_text text_line.
        if snd run then metrics_wide (fst run) fontSize
        else (\<Sum>c\<leftarrow>fst run. metrics_narrow [c] fontSize + charAdjust)) \<and>
   compute_line_width hello_world (fixed_width_font 10) (fixed_width_font 5) fontSize (- (1 / 2))
     = 85 / 2"
proof
  show "compute_line_width text_line metrics_wide metrics_narrow fontSize charAdjust =
     (\<Sum>run\<leftarrow>segment_text text_line.
        if snd run then metrics_wide (fst run) fontSize
        else (\<Sum>c\<leftarrow>fst run. metrics_narrow [c] fontSize + charAdjust))"
    unfolding compute_line_width_runs spec_run_width_def ..
  show "compute_line_width hello_world (fixed_width_font 10) (fixed_width_font 5) fontSize (- (1 / 2))
     = 85 / 2"
    by (simp add: compute_line_width_runs segment_text_hello spec_run_width_def fixed_width_font_def)
qed

theorem compute_line_width_spec_witness:
  "compute_line_width [87, 105] (fixed_width_font 10) (scaled_font times_advance) 1 (- (1 / 2))
     = 111 / 500"
  using compute_line_width_spec [of "[87, 105]" "fixed_width_font 10" "scaled_font times_advance" 1 "- (1 / 2)"]
  by (simp add: segment_text_def segment_step_def is_chinese_def scaled_font_def times_advance_def)

subsection \<open>Splitting\<close>

lemma split_scan_char:
  "\<exists>n\<le>length rest. split_scan cf lf fs adj allowed rest i cum i = i + n \<and>
     (\<forall>j. 1 \<le> j \<and> j \<le> n \<longrightarrow> cum + scan_width cf lf fs adj (take j rest) \<le> allowed) \<and>
     (n < length rest \<longrightarrow> allowed < cum + scan_width cf lf fs adj (take (Suc n) rest))"
proof (induction rest arbitrary: i cum)
  case Nil
  then show ?case by simp
next
  case (Cons ch rest)
  let ?w = "ch_width cf lf fs adj ch"
  show ?case
  proof (cases "cum + ?w \<le> allowed")
    case False
    then show ?thesis by (intro exI [of _ 0]) (simp add: scan_width_def)
  next
    case True
    from Cons.IH [of "i + 1" "cum + ?w"] obtain n where n: "n \<le> length rest"
      "split_scan cf lf fs adj allowed rest (i + 1) (cum + ?w) (i + 1) = i + 1 + n"
      "\<forall>j. 1 \<le> j \<and> j \<le> n \<longrightarrow> cum + ?w + scan_width cf lf fs adj (take j rest) \<le> allowed"
      "n < length rest \<longrightarrow> allowed < cum + ?w + scan_width cf lf fs adj (take (Suc n) rest)"
      by blast
    have "\<forall>j. 1 \<le> j \<and> j \<le> Suc n \<longrightarrow> cum + scan_width cf lf fs adj (take j (ch # rest)) \<le> allowed"
    proof (intro allI impI)
      fix j assume j: "1 \<le> j \<and> j \<le> Suc n"
      then obtain j' where j': "j = Suc j'" by (cases j) auto
      show "cum + scan_width cf lf fs adj (take j (ch # rest)) \<le> allowed"
      proof (cases "j' = 0")
        case True
        with j' \<open>cum + ?w \<le> allowed\<close> show ?thesis by (simp add: scan_width_def)
      next
        case False
        with j j' n(3) have "cum + ?w + scan_width cf lf fs adj (take j' rest) \<le> allowed" by simp
        with j' show ?thesis by (simp add: scan_width_def add.assoc)
      qed
    qed
    moreover have "Suc n < length (ch # rest) \<longrightarrow>
        allowed < cum + scan_width cf lf fs adj (take (Suc (Suc n)) (ch # rest))"
      using n(4) by (simp add: scan_width_def add.assoc)
    ultimately show ?thesis using n(1,2) True
      by (intro exI [of _ "Suc n"]) simp
  qed
qed

lemma split_scan_le: "split_scan cf lf fs adj allowed l 0 0 0 \<le> length l"
  using split_scan_char [of l cf lf fs adj allowed 0 0] by auto

lemma split_scan_first_overflow:
  "l \<noteq> [] \<Longrightarrow> allowed < ch_width cf lf fs adj (hd l) \<Longrightarrow> split_scan cf lf fs adj allowed l 0 0 0 = 0"
  by (cases l) simp_all

lemma split_scan_first_fits:
  "l \<noteq> [] \<Longrightarrow> ch_width cf lf fs adj (hd l) \<le> allowed \<Longrightarrow> 0 < split_scan cf lf fs adj allowed l 0 0 0"
  using split_scan_char [of "tl l" cf lf fs adj allowed 1 "ch_width cf lf fs adj (hd l)"]
  by (cases l) auto

text \<open>
  Claim C4. For every non-empty line and every allowed width (the non-negative
  ones among them), the prefix returned by \<open>split_text_line\<close> is non-empty, the
  lengths of prefix and suffix add up to the length of the line (they are the
  line cut in two), and when the width of the first character alone exceeds the
  allowed width the prefix is exactly the first character.
\<close>

theorem split_text_line_nonempty:
  assumes "text_line \<noteq> []"
  shows "fst (split_text_line text_line allowed cf lf fs adj) \<noteq> [] \<and>
         length (fst (split_text_line text_line allowed cf lf fs adj)) +
           length (snd (split_text_line text_line allowed cf lf fs adj)) = length text_line \<and>
         fst (split_text_line text_line allowed cf lf fs adj) @
           snd (split_text_line text_line allowed cf lf fs adj) = text_line \<and>
         (allowed < ch_width cf lf fs adj (hd text_line) \<longrightarrow>
            split_text_line text_line allowed cf lf fs adj = ([hd text_line], tl text_line))"
  using assms split_scan_first_overflow [of text_line allowed cf lf fs adj]
  by (cases text_line) (auto simp: split_text_line_def Let_def)

theorem split_text_line_nonempty_witness:
  "split_text_line [65, 66, 67] 1 (fixed_width_font 10) (fixed_width_font 5) 12 (- (1 / 2))
     = ([65], [66, 67])"
  using split_text_line_nonempty [of "[65, 66, 67]" 1 "fixed_width_font 10" "fixed_width_font 5" 12 "- (1 / 2)"]
  by (simp add: ch_width_def is_chinese_def fixed_width_font_def)

text \<open>
  Claim C1, as amended. For every non-empty line and every allowed width: the
  result is the line cut at the length of the prefix. When the first character
  fits, the running width \<open>scan_width\<close> after each character of the prefix is
  within the allowed width, and the prefix is maximal: if it is not the whole
  line, the next character takes the running width above the allowed width.
  When the first character alone exceeds the allowed width, the prefix is that
  character, although its width is not within the allowed width.
\<close>

theorem split_text_line_greedy:
  assumes "text_line \<noteq> []"
  shows "(ch_width cf lf fs adj (hd text_line) \<le> allowed \<longrightarrow>
           (\<forall>j. 1 \<le> j \<and> j \<le> length (fst (split_text_line text_line allowed cf lf fs adj)) \<longrightarrow>
                scan_width cf lf fs adj (take j text_line) \<le> allowed) \<and>
           (length (fst (split_text_line text_line allowed cf lf fs adj)) < length text_line \<longrightarrow>
              allowed < scan_width cf lf fs adj
                 (take (Suc (length (fst (split_text_line text_line allowed cf lf fs adj)))) text_line))) \<and>
         (allowed < ch_width cf lf fs adj (hd text_line) \<longrightarrow>
            fst (split_text_line text_line allowed cf lf fs adj) = [hd text_line]) \<and>
         fst (split_text_line text_line allowed cf lf fs adj) =
           take (length (fst (split_text_line text_line allowed cf lf fs adj))) text_line \<and>
         snd (split_text_line text_line allowed cf lf fs adj) =
           drop (length (fst (split_text_line text_line allowed cf lf fs adj))) text_line"
proof -
  let ?k = "split_scan cf lf fs adj allowed text_line 0 0 0"
  obtain n where n: "n \<le> length text_line" "?k = n"
      "\<forall>j. 1 \<le> j \<and> j \<le> n \<longrightarrow> scan_width cf lf fs adj (take j text_line) \<le> allowed"
      "n < length text_line \<longrightarrow> allowed < scan_width cf lf fs adj (take (Suc n) text_line)"
    using split_scan_char [of text_line cf lf fs adj allowed 0 0] by auto
  have fits: "ch_width cf lf fs adj (hd text_line) \<le> allowed \<Longrightarrow> 0 < n"
    using split_scan_first_fits [of text_line cf lf fs adj allowed] assms n(2) by simp
  have over: "allowed < ch_width cf lf fs adj (hd text_line) \<Longrightarrow> n = 0"
    using split_scan_first_overflow [of text_line allowed cf lf fs adj] assms n(2) by simp
  have len: "0 < n \<Longrightarrow> length (fst (split_text_line text_line allowed cf lf fs adj)) = n"
    using n(1,2) by (simp add: split_text_line_def Let_def)
  have one: "n = 0 \<Longrightarrow> fst (split_text_line text_line allowed cf lf fs adj) = [hd text_line]"
    using n(2) assms by (cases text_line) (simp_all add: split_text_line_def Let_def)
  have td: "fst (split_text_line text_line allowed cf lf fs adj) =
           take (length (fst (split_text_line text_line allowed cf lf fs adj))) text_line \<and>
         snd (split_text_line text_line allowed cf lf fs adj) =
           drop (length (fst (split_text_line text_line allowed cf lf fs adj))) text_line"
    using assms split_scan_le [of cf lf fs adj allowed text_line]
    by (cases text_line) (auto simp: split_text_line_def Let_def min_def)
  show ?thesis using fits over len one td n(3,4) by auto
qed

theorem split_text_line_greedy_witness:
  "split_text_line [65, 66, 67, 68, 69] 10 (fixed_width_font 10) (fixed_width_font 3) 12 (- (1 / 2))
     = ([65, 66, 67, 68], [69]) \<and>
   scan_width (fixed_width_font 10) (fixed_width_font 3) 12 (- (1 / 2)) [65, 66, 67, 68] \<le> 10 \<and>
   10 < scan_width (fixed_width_font 10) (fixed_width_font 3) 12 (- (1 / 2)) [65, 66, 67, 68, 69]"
  using split_text_line_greedy [of "[65, 66, 67, 68, 69]" "fixed_width_font 10" "fixed_width_font 3" 12 "- (1 / 2)" 10]
  by (simp add: split_text_line_def scan_width_def ch_width_def is_chinese_def fixed_width_font_def)

text \<open>
  Claim C1 as stated fails: for the line \<^verbatim>\<open>ABC\<close>, narrow characters 5 wide, an
  adjustment of -0.5 and an allowed width of 1, the accumulated width of the
  returned prefix is 4.5, which is not within the allowed width.
\<close>

theorem split_text_line_prefix_counterexample:
  "\<not> scan_width (fixed_width_font 10) (fixed_width_font 5) 12 (- (1 / 2))
        (fst (split_text_line [65, 66, 67] 1 (fixed_width_font 10) (fixed_width_font 5) 12 (- (1 / 2))))
      \<le> 1"
  by (simp add: split_text_line_def scan_width_def ch_width_def is_chinese_def fixed_width_font_def)

text \<open>
  Claim C10. Splitting the empty line returns the pair of two empty strings:
  the forced split index 1 slices an empty string, no error is raised, and the
  prefix is empty.
\<close>

theorem split_text_line_empty:
  "split_text_line [] allowed cf lf fs adj = ([], [])"
  by (simp add: split_text_line_def)

subsection \<open>The measure of the prefix\<close>

lemma segment_text_snoc:
  "l \<noteq> [] \<Longrightarrow> \<exists>segs cur cls. segment_text l = segs @ [(cur, cls)] \<and>
     segment_text (l @ [c]) =
       (if is_chinese c = cls then segs @ [(cur @ [c], cls)]
        else segs @ [(cur, cls), ([c], is_chinese c)])"
proof (cases l)
  case Nil
  assume "l \<noteq> []" with Nil show ?thesis by simp
next
  case (Cons c0 rest)
  obtain segs cur cls where st: "fold segment_step rest ([], [c0], is_chinese c0) = (segs, cur, cls)"
    by (cases "fold segment_step rest ([], [c0], is_chinese c0)") auto
  show ?thesis
    using Cons st by (intro exI [of _ segs] exI [of _ cur] exI [of _ cls])
      (simp add: segment_text_def segment_step_def)
qed

lemma compute_line_width_snoc:
  assumes narrow: "\<not> is_chinese c \<longrightarrow> 0 \<le> lf [c] fs + adj"
    and nonneg: "\<forall>s. 0 \<le> cf s fs"
    and mono: "\<forall>s t. cf s fs \<le> cf (s @ t) fs"
  shows "compute_line_width l cf lf fs adj \<le> compute_line_width (l @ [c]) cf lf fs adj"
proof (cases "l = []")
  case True
  then show ?thesis using narrow nonneg
    by (simp add: compute_line_width_runs segment_text_def spec_run_width_def)
next
  case False
  from segment_text_snoc [OF False, of c] obtain segs cur cls where
    a: "segment_text l = segs @ [(cur, cls)]" and
    b: "segment_text (l @ [c]) =
       (if is_chinese c = cls then segs @ [(cur @ [c], cls)]
        else segs @ [(cur, cls), ([c], is_chinese c)])" by blast
  show ?thesis
  proof (cases "is_chinese c = cls")
    case True
    then show ?thesis using a b narrow mono
      by (auto simp: compute_line_width_runs spec_run_width_def)
  next
    case False
    then show ?thesis using a b narrow nonneg
      by (auto simp: compute_line_width_runs spec_run_width_def)
  qed
qed

lemma compute_line_width_append:
  assumes narrow: "\<forall>c\<in>set s. \<not> is_chinese c \<longrightarrow> 0 \<le> lf [c] fs + adj"
    and nonneg: "\<forall>s. 0 \<le> cf s fs"
    and mono: "\<forall>s t. cf s fs \<le> cf (s @ t) fs"
  shows "compute_line_width p cf lf fs adj \<le> compute_line_width (p @ s) cf lf fs adj"
  using narrow
proof (induction s rule: rev_induct)
  case Nil
  then show ?case by simp
next
  case (snoc c s)
  have "compute_line_width (p @ s) cf lf fs adj \<le> compute_line_width ((p @ s) @ [c]) cf lf fs adj"
    using snoc.prems nonneg mono by (intro compute_line_width_snoc) auto
  moreover have "compute_line_width p cf lf fs adj \<le> compute_line_width (p @ s) cf lf fs adj"
    using snoc by simp
  ultimately show ?case by simp
qed

lemma split_text_line_append:
  "fst (split_text_line l allowed cf lf fs adj) @ snd (split_text_line l allowed cf lf fs adj) = l"
  by (simp add: split_text_line_def Let_def)

text \<open>
  Claim C8, as amended. For every line whose measured width exceeds the allowed
  width: if every narrow character of the line has a non-negative width once
  the adjustment is added, and the wide font measures no text below zero and
  never measures a text shorter after characters are appended to it, then the
  measured width of the prefix returned by \<open>split_text_line\<close> is at most the
  measured width of the line.
\<close>

theorem split_prefix_width_le:
  assumes "allowed < compute_line_width text_line cf lf fs adj"
    and "\<forall>c\<in>set text_line. \<not> is_chinese c \<longrightarrow> 0 \<le> lf [c] fs + adj"
    and "\<forall>s. 0 \<le> cf s fs"
    and "\<forall>s t. cf s fs \<le> cf (s @ t) fs"
  shows "compute_line_width (fst (split_text_line text_line allowed cf lf fs adj)) cf lf fs adj
           \<le> compute_line_width text_line cf lf fs adj"
proof -
  let ?p = "fst (split_text_line text_line allowed cf lf fs adj)"
  let ?s = "snd (split_text_line text_line allowed cf lf fs adj)"
  have eq: "?p @ ?s = text_line" by (rule split_text_line_append)
  then have "set ?s \<subseteq> set text_line" by (metis set_append sup_ge2)
  with assms(2) have narrow: "\<forall>c\<in>set ?s. \<not> is_chinese c \<longrightarrow> 0 \<le> lf [c] fs + adj" by blast
  have "compute_line_width ?p cf lf fs adj \<le> compute_line_width (?p @ ?s) cf lf fs adj"
    using narrow assms(3) assms(4) by (rule compute_line_width_append)
  with eq show ?thesis by simp
qed

theorem split_prefix_width_le_witness:
  "compute_line_width (fst (split_text_line hello_world 30 (fixed_width_font 10) (fixed_width_font 5) 12 (- (1 / 2))))
      (fixed_width_font 10) (fixed_width_font 5) 12 (- (1 / 2))
     \<le> compute_line_width hello_world (fixed_width_font 10) (fixed_width_font 5) 12 (- (1 / 2)) \<and>
   30 < compute_line_width hello_world (fixed_width_font 10) (fixed_width_font 5) 12 (- (1 / 2))"
proof -
  have w: "compute_line_width hello_world (fixed_width_font 10) (fixed_width_font 5) 12 (- (1 / 2)) = 85 / 2"
    by (simp add: compute_line_width_runs segment_text_hello spec_run_width_def fixed_width_font_def)
  have h1: "30 < compute_line_width hello_world (fixed_width_font 10) (fixed_width_font 5) 12 (- (1 / 2))"
    by (simp add: w)
  have h2: "\<forall>c\<in>set hello_world. \<not> is_chinese c \<longrightarrow> 0 \<le> fixed_width_font 5 [c] 12 + - (1 / 2)"
    by (simp add: fixed_width_font_def)
  have h3: "\<forall>s. 0 \<le> fixed_width_font 10 s 12" by (simp add: fixed_width_font_def)
  have h4: "\<forall>s t. fixed_width_font 10 s 12 \<le> fixed_width_font 10 (s @ t) 12"
    by (simp add: fixed_width_font_def)
  from h1 h2 h3 h4 have "compute_line_width
      (fst (split_text_line hello_world 30 (fixed_width_font 10) (fixed_width_font 5) 12 (- (1 / 2))))
      (fixed_width_font 10) (fixed_width_font 5) 12 (- (1 / 2))
     \<le> compute_line_width hello_world (fixed_width_font 10) (fixed_width_font 5) 12 (- (1 / 2))"
    by (rule split_prefix_width_le)
  with h1 show ?thesis by simp
qed

text \<open>
  Claim C8 as stated fails: at font size 1 the letter \<^verbatim>\<open>i\<close> is 0.278 wide, and
  -0.222 with the adjustment. The line \<^verbatim>\<open>Wi\<close> measures 0.222, more than the
  allowed width 0.1; the first character does not fit and is forced into the
  prefix, and the prefix \<^verbatim>\<open>W\<close> measures 0.444.
\<close>

theorem split_prefix_width_counterexample:
  "1 / 10 < compute_line_width [87, 105] (fixed_width_font 10) (scaled_font times_advance) 1 (- (1 / 2)) \<and>
   \<not> compute_line_width
        (fst (split_text_line [87, 105] (1 / 10) (fixed_width_font 10) (scaled_font times_advance) 1 (- (1 / 2))))
        (fixed_width_font 10) (scaled_font times_advance) 1 (- (1 / 2))
      \<le> compute_line_width [87, 105] (fixed_width_font 10) (scaled_font times_advance) 1 (- (1 / 2))"
  by (simp add: compute_line_width_runs spec_run_width_def split_text_line_def ch_width_def
        segment_text_def segment_step_def is_chinese_def scaled_font_def times_advance_def)


subsection \<open>The rows of a page\<close>













subsection \<open>Pages and bookmarks\<close>

lemma fold_page_step:
  "fold (page_step L lines pages) [0..<n] ([], []) =
     (concat (map (\<lambda>i. process_page L i (lines ! i) (pages ! i)) [0..<n]),
      map (\<lambda>i. (1, lines ! i, i + 1)) [0..<n])"
  by (induction n) (simp_all add: page_step_def)

text \<open>
  Claim C9. For every list of lines and every list of pages, with
  \<open>count = min (length lines) (length pages)\<close>: the page loop processes exactly
  the pairs of line \<open>i\<close> and page \<open>i\<close> for \<open>i\<close> from 0 below \<open>count\<close>, in this
  order, and the bookmark list, which is then handed to \<^verbatim>\<open>set_toc\<close>, has exactly
  one entry per pair in the same order: level 1, the line as title, and the
  page number \<open>i + 1\<close>. Lines and pages from \<open>count\<close> on are not used.
\<close>

theorem run_pages_bookmarks:
  "length (snd (run_pages L lines pages)) = min (length lines) (length pages) \<and>
   snd (run_pages L lines pages) =
     map (\<lambda>i. (1, lines ! i, i + 1)) [0..<min (length lines) (length pages)] \<and>
   fst (run_pages L lines pages) =
     concat (map (\<lambda>i. process_page L i (lines ! i) (pages ! i))
               [0..<min (length lines) (length pages)])"
  by (simp add: run_pages_def Let_def fold_page_step)

theorem run_pages_bookmarks_witness:
  "snd (run_pages demo_locals [[65], [66], [67]] (replicate 5 (612, 792))) =
     [(1, [65], 1), (1, [66], 2), (1, [67], 3)]"
  using run_pages_bookmarks [of demo_locals "[[65], [66], [67]]" "replicate 5 (612, 792)"]
  by (simp add: upt_conv_Cons)

subsection \<open>Configuration errors\<close>

text \<open>
  Claim C6, as amended. When the anchor X, the anchor Y or the font size is not
  numeric, the only thing \<open>perform_insertion\<close> does is to log the error: no
  default is substituted, and no document is opened, written or saved.
\<close>

theorem perform_insertion_not_numeric:
  assumes "to_float E ins_x = None \<or> to_float E ins_y = None \<or> to_float E fsize = None"
  shows "perform_insertion E ins_x ins_y fsize color_str align_str = [Log NotNumeric]"
  using assms by (auto simp: perform_insertion_def split: option.splits)

theorem perform_insertion_not_numeric_witness:
  "perform_insertion demo_env [97, 98, 99] [56] [49, 50] [48, 44, 48, 44, 48] str_center
     = [Log NotNumeric]"
proof -
  have "to_float demo_env [97, 98, 99] = None"
    by (simp add: demo_env_def float_samples_def)
  then show ?thesis by (intro perform_insertion_not_numeric) simp
qed

lemma perform_insertion_ok:
  assumes "to_float E ins_x = Some x" "to_float E ins_y = Some y" "to_float E fsize = Some fs"
    and "overlay_txt E = Content raw" "input_pdf E = Some pages" "china_s E = Some cf"
  shows "\<exists>pre evs toc. perform_insertion E ins_x ins_y fsize color_str align_str =
           pre @ evs @ finish E toc"
proof -
  obtain al a where 1:
    "(case parse_align align_str of Some a \<Rightarrow> ([], a) | None \<Rightarrow> ([Log AlignInvalid], AlignLeft))
       = (al, a)"
    by (metis surj_pair)
  obtain cl col where 2: "resolve_color (to_float E) color_str = (cl, col)"
    by (metis surj_pair)
  obtain evs toc where 3:
    "run_pages \<lparr>insert_x = x, insert_y = y, font_size = fs, color_black = col, text_align = a,
        chinese_font_obj = cf, latin_font_obj = times_roman E, char_adjust = - (1 / 2)\<rparr>
       (filter (\<lambda>l. l \<noteq> []) (map strip raw)) pages = (evs, toc)"
    by (metis surj_pair)
  have "perform_insertion E ins_x ins_y fsize color_str align_str =
          (al @ cl) @ evs @ finish E toc"
    by (simp add: perform_insertion_def assms 1 2 3)
  then show ?thesis by blast
qed

text \<open>
  Claim C6 as stated fails: with the anchor X \<^verbatim>\<open>abc\<close> the run logs the error
  and stops, while the run with the default \<^verbatim>\<open>60\<close> in its place goes on to save
  the document.
\<close>

theorem perform_insertion_default_counterexample:
  "perform_insertion demo_env [97, 98, 99] [56] [49, 50] [48, 44, 48, 44, 48] str_center
     = [Log NotNumeric] \<and>
   Save \<in> set (perform_insertion demo_env [54, 48] [56] [49, 50] [48, 44, 48, 44, 48] str_center) \<and>
   perform_insertion demo_env [97, 98, 99] [56] [49, 50] [48, 44, 48, 44, 48] str_center
     \<noteq> perform_insertion demo_env [54, 48] [56] [49, 50] [48, 44, 48, 44, 48] str_center"
proof -
  have a: "perform_insertion demo_env [97, 98, 99] [56] [49, 50] [48, 44, 48, 44, 48] str_center
     = [Log NotNumeric]"
    by (simp add: perform_insertion_def demo_env_def float_samples_def)
  have "\<exists>pre evs toc.
          perform_insertion demo_env [54, 48] [56] [49, 50] [48, 44, 48, 44, 48] str_center =
            pre @ evs @ finish demo_env toc"
    by (rule perform_insertion_ok [where x = 60 and y = 8 and fs = 12])
       (simp_all add: demo_env_def float_samples_def)
  then obtain pre evs toc where
    "perform_insertion demo_env [54, 48] [56] [49, 50] [48, 44, 48, 44, 48] str_center =
       pre @ evs @ finish demo_env toc" by blast
  moreover have "Save \<in> set (finish demo_env toc)"
    by (simp add: finish_def demo_env_def)
  ultimately have b: "Save \<in> set (perform_insertion demo_env [54, 48] [56] [49, 50]
      [48, 44, 48, 44, 48] str_center)" by simp
  have c: "Save \<notin> set [Log NotNumeric]" by simp
  from a b c show ?thesis by metis
qed

subsection \<open>The colour\<close>

lemma those_Some: "those xs = Some vs \<Longrightarrow> xs = map Some vs"
  by (induction xs arbitrary: vs) (auto split: option.splits)

text \<open>
  Claim C7, as amended. When the colour string has three components and each
  is numeric, no warning is logged, the components are all divided by 255 when
  one of them exceeds 1 and are used unchanged otherwise; if moreover each
  component is between 0 and 255, every component of the resulting colour is
  between 0 and 1. Any other colour string gives black with a warning.
\<close>

theorem resolve_color_range:
  "(map (\<lambda>c. float_of (strip c)) (split_on comma color_str) = [Some r, Some g, Some b] \<longrightarrow>
      resolve_color float_of color_str =
        ([], if 1 < r \<or> 1 < g \<or> 1 < b then (r / 255, g / 255, b / 255) else (r, g, b)) \<and>
      (0 \<le> r \<and> r \<le> 255 \<and> 0 \<le> g \<and> g \<le> 255 \<and> 0 \<le> b \<and> b \<le> 255 \<longrightarrow>
         (case snd (resolve_color float_of color_str) of
            (r', g', b') \<Rightarrow> 0 \<le> r' \<and> r' \<le> 1 \<and> 0 \<le> g' \<and> g' \<le> 1 \<and> 0 \<le> b' \<and> b' \<le> 1))) \<and>
   ((\<forall>r g b. map (\<lambda>c. float_of (strip c)) (split_on comma color_str) \<noteq> [Some r, Some g, Some b]) \<longrightarrow>
      resolve_color float_of color_str = ([Log ColorInvalid], (0, 0, 0)))"
proof (intro conjI impI)
  assume m: "map (\<lambda>c. float_of (strip c)) (split_on comma color_str) = [Some r, Some g, Some b]"
  show eq: "resolve_color float_of color_str =
        ([], if 1 < r \<or> 1 < g \<or> 1 < b then (r / 255, g / 255, b / 255) else (r, g, b))"
    by (auto simp: resolve_color_def parse_color_def m)
  assume "0 \<le> r \<and> r \<le> 255 \<and> 0 \<le> g \<and> g \<le> 255 \<and> 0 \<le> b \<and> b \<le> 255"
  then show "case snd (resolve_color float_of color_str) of
            (r', g', b') \<Rightarrow> 0 \<le> r' \<and> r' \<le> 1 \<and> 0 \<le> g' \<and> g' \<le> 1 \<and> 0 \<le> b' \<and> b' \<le> 1"
    by (auto simp: eq)
next
  let ?ps = "map (\<lambda>c. float_of (strip c)) (split_on comma color_str)"
  assume n: "\<forall>r g b. ?ps \<noteq> [Some r, Some g, Some b]"
  show "resolve_color float_of color_str = ([Log ColorInvalid], (0, 0, 0))"
  proof (cases "those ?ps")
    case None
    then show ?thesis by (simp add: resolve_color_def parse_color_def)
  next
    case (Some vs)
    have ps: "?ps = map Some vs" using Some by (rule those_Some)
    with n have "\<forall>r g b. vs \<noteq> [r, g, b]" by auto
    then have "(case vs of [r, g, b] \<Rightarrow> X r g b | _ \<Rightarrow> None) = None" for X :: "real \<Rightarrow> real \<Rightarrow> real \<Rightarrow> color option"
      by (auto split: list.splits)
    then show ?thesis using Some by (simp add: resolve_color_def parse_color_def)
  qed
qed

theorem resolve_color_range_witness:
  "resolve_color float_samples [50, 53, 53, 44, 48, 44, 48] = ([], (1, 0, 0)) \<and>
   resolve_color float_samples [48, 46, 53, 44, 48, 46, 53, 44, 48, 46, 53] = ([], (1 / 2, 1 / 2, 1 / 2)) \<and>
   resolve_color float_samples [48, 46, 53, 44, 48, 46, 53] = ([Log ColorInvalid], (0, 0, 0))"
  using resolve_color_range [of float_samples "[50, 53, 53, 44, 48, 44, 48]" 255 0 0]
  by (simp add: resolve_color_def parse_color_def comma_def strip_def is_space_def float_samples_def)

text \<open>
  Claim C7 as stated fails: the colour string \<^verbatim>\<open>300,0,0\<close> has three numeric
  components and gives the red component 300 / 255, above 1.
\<close>

theorem resolve_color_range_counterexample:
  "resolve_color float_samples [51, 48, 48, 44, 48, 44, 48] = ([], (20 / 17, 0, 0)) \<and>
   \<not> (case snd (resolve_color float_samples [51, 48, 48, 44, 48, 44, 48]) of
        (r, g, b) \<Rightarrow> 0 \<le> r \<and> r \<le> 1 \<and> 0 \<le> g \<and> g \<le> 1 \<and> 0 \<le> b \<and> b \<le> 1)"
  by (simp add: resolve_color_def parse_color_def comma_def strip_def is_space_def float_samples_def)

end
